theory Spec2Isabelle
  imports Main "HOL-Library.Product_Lexorder"
begin

section \<open>Failures\<close>

text \<open>
  The TypeScript sources raise plain \<open>Error\<close> objects that differ only in their message.
  Each constructor below stands for one \<open>throw\<close> site:
  \<^item> \<open>LowNegative\<close>: "Binary search failed because low must be >= 0"
  \<^item> \<open>LowAboveHigh\<close>: "Binary search failed because low > high"
  \<^item> \<open>MaxSearchesNotPositive\<close>: "maxSearches must be > 0"
  \<^item> \<open>DepositIdNotFound\<close>: "Failed to find deposit ID" (thrown at two places)
  \<^item> \<open>NCannotBeZero\<close>: "n cannot be 0"
  \<^item> \<open>ClientNotUpdated\<close>: "HubPoolClient::getNthFullyExecutedRootBundle client not updated"
  \<^item> \<open>RunningBalancesLengthMismatch\<close>:
    "runningBalances and L1 token of ExecutedRootBundle event are not same length"
  \<^item> \<open>UnsupportedHubPoolToken\<close>: "Unsupported HubPool token: ..." (carries the token's
    address, symbol and decimals, which the message prints)
  \<^item> \<open>NumberOverflow\<close>: the fault \<open>BigNumber.toNumber()\<close> of the ethers library raises for
    a value that a JavaScript number cannot hold safely.
\<close>

datatype error =
    LowNegative
  | LowAboveHigh
  | MaxSearchesNotPositive
  | DepositIdNotFound
  | NCannotBeZero
  | ClientNotUpdated
  | RunningBalancesLengthMismatch
  | UnsupportedHubPoolToken string string int
  | NumberOverflow

text \<open>
  The specification's failure taxonomy, read over the throw sites: the three range checks of
  the resolver are \<open>InvalidRange\<close>, its two bracket checks are \<open>TargetUnreachable\<close>.
\<close>

datatype failure_kind =
    InvalidRange
  | TargetUnreachable
  | InvalidArgument
  | UnsupportedToken
  | OtherFailure

fun failure_kind_of :: "error \<Rightarrow> failure_kind" where
  "failure_kind_of LowNegative = InvalidRange"
| "failure_kind_of LowAboveHigh = InvalidRange"
| "failure_kind_of MaxSearchesNotPositive = InvalidRange"
| "failure_kind_of DepositIdNotFound = TargetUnreachable"
| "failure_kind_of NCannotBeZero = InvalidArgument"
| "failure_kind_of (UnsupportedHubPoolToken a s d) = UnsupportedToken"
| "failure_kind_of ClientNotUpdated = OtherFailure"
| "failure_kind_of RunningBalancesLengthMismatch = OtherFailure"
| "failure_kind_of NumberOverflow = OtherFailure"

section \<open>The block range resolver (getBlockRangeForDepositId)\<close>

text \<open>
  The resolver keeps a per-call table \<open>queriedIds\<close> from block numbers to deposit counts.
  \<open>calls\<close> is the log of the \<open>numberOfDeposits\<close> requests sent to the spoke pool during
  the call, oldest first; the source has no such variable, it records the effect.
\<close>

record resolver_state =
  queriedIds :: "int \<rightharpoonup> int"
  calls :: "int list"

definition initial_resolver_state :: resolver_state where
  "initial_resolver_state = \<lparr>queriedIds = Map.empty, calls = []\<rparr>"

text \<open>
  The local closure \<open>getDepositIdAtBlock\<close>: asks the contract only when the table has no
  entry for the block, and stores the answer.
\<close>

definition getDepositIdAtBlock ::
  "(int \<Rightarrow> int) \<Rightarrow> int \<Rightarrow> resolver_state \<Rightarrow> int \<times> resolver_state" where
  "getDepositIdAtBlock numberOfDeposits blockNumber st =
     (case queriedIds st blockNumber of
        None \<Rightarrow>
          (let v = numberOfDeposits blockNumber
           in (v, st\<lparr>queriedIds := (queriedIds st)(blockNumber \<mapsto> v),
                     calls := calls st @ [blockNumber]\<rparr>))
      | Some v \<Rightarrow> (v, st))"

text \<open>
  The source computes with JavaScript numbers, which are doubles; the model computes with
  integers and rounds where a double would. \<open>to_double\<close> is the double nearest to an
  integer: the integer itself up to \<open>2^53\<close> in magnitude, and beyond that the nearest
  multiple of the spacing \<open>ulp_of\<close> of the doubles of that size, a tie going to the even
  multiple. (The overflow to infinity near \<open>2^1024\<close> is left out.) The arguments and the
  contract's answers are taken to be integers that are doubles. The pass counter of the loop
  is not rounded: it is exact below \<open>2^53\<close> passes.
\<close>

definition MAX_SAFE_INTEGER :: int where
  "MAX_SAFE_INTEGER = 2 ^ 53 - 1"

function ulp_of :: "int \<Rightarrow> int" where
  "ulp_of m = (if m \<le> MAX_SAFE_INTEGER then 1 else 2 * ulp_of (m div 2))"
  by pat_completeness auto
termination
proof (relation "measure nat")
  show "wf (measure nat)"
    by simp
next
  fix m :: int
  assume "\<not> m \<le> MAX_SAFE_INTEGER"
  moreover have "0 \<le> MAX_SAFE_INTEGER"
    by (simp add: MAX_SAFE_INTEGER_def)
  ultimately have "0 < m"
    by linarith
  then show "(m div 2, m) \<in> measure nat"
    by simp
qed

declare ulp_of.simps [simp del]

definition to_double :: "int \<Rightarrow> int" where
  "to_double s =
     (if \<bar>s\<bar> \<le> MAX_SAFE_INTEGER + 1 then s
      else (let m = \<bar>s\<bar>;
                u = ulp_of m;
                q = m div u;
                r = m mod u;
                q' = (if 2 * r < u then q
                      else if 2 * r > u then q + 1
                      else if even q then q else q + 1)
            in sgn s * (q' * u)))"

text \<open>
  One pass through the body of the \<open>do \<dots> while\<close> loop: the new \<open>low\<close> and \<open>high\<close>. The
  midpoint is \<open>Math.floor((low + high) / 2)\<close>, the halving and the floor being exact; the
  sum and the three differences and sums with 1 are rounded as doubles.
\<close>

definition bisect_step ::
  "(int \<Rightarrow> int) \<Rightarrow> int \<Rightarrow> int \<Rightarrow> int \<Rightarrow> resolver_state \<Rightarrow> (int \<times> int) \<times> resolver_state" where
  "bisect_step numberOfDeposits targetDepositId low high st =
     (let mid = to_double (low + high) div 2;
          (midDepositId, st1) = getDepositIdAtBlock numberOfDeposits mid st;
          (prevDepositId, st2) =
             (if mid = 0 then (0, st1)
              else getDepositIdAtBlock numberOfDeposits (to_double (mid - 1)) st1);
          lowRange = prevDepositId;
          highRange = to_double (midDepositId - 1)
      in if targetDepositId < lowRange then ((low, to_double (mid - 1)), st2)
         else if targetDepositId > highRange then ((to_double (mid + 1), high), st2)
         else ((mid, mid), st2))"

text \<open>
  The loop \<open>do { \<dots> } while (++searches < maxSearches && low < high)\<close>; \<open>searches\<close> is the
  number of passes made before this one.
\<close>

function bisect ::
  "(int \<Rightarrow> int) \<Rightarrow> int \<Rightarrow> int \<Rightarrow> int \<Rightarrow> int \<Rightarrow> int \<Rightarrow> resolver_state
     \<Rightarrow> (int \<times> int) \<times> resolver_state" where
  "bisect numberOfDeposits targetDepositId maxSearches low high searches st =
     (case bisect_step numberOfDeposits targetDepositId low high st of
        ((low', high'), st') \<Rightarrow>
          if searches + 1 < maxSearches \<and> low' < high'
          then bisect numberOfDeposits targetDepositId maxSearches low' high' (searches + 1) st'
          else ((low', high'), st'))"
  by pat_completeness auto
termination
  by (relation "measure (\<lambda>(rd, t, m, l, h, s, st). nat (m - s))") auto

declare bisect.simps [simp del]

definition getBlockRangeForDepositId ::
  "int \<Rightarrow> int \<Rightarrow> int \<Rightarrow> int \<Rightarrow> (int \<Rightarrow> int) \<Rightarrow> (error + int \<times> int) \<times> resolver_state" where
  "getBlockRangeForDepositId targetDepositId initLow initHigh maxSearches numberOfDeposits =
     (let st0 = initial_resolver_state
      in if initLow < 0 then (Inl LowNegative, st0)
         else if initLow > initHigh then (Inl LowAboveHigh, st0)
         else if maxSearches \<le> 0 then (Inl MaxSearchesNotPositive, st0)
         else (case getDepositIdAtBlock numberOfDeposits initHigh st0 of
                 (highId, st1) \<Rightarrow>
                   if highId < targetDepositId then (Inl DepositIdNotFound, st1)
                   else (case getDepositIdAtBlock numberOfDeposits initLow st1 of
                           (lowId, st2) \<Rightarrow>
                             if lowId > targetDepositId then (Inl DepositIdNotFound, st2)
                             else (case bisect numberOfDeposits targetDepositId maxSearches
                                          initLow initHigh 0 st2 of
                                     (r, st3) \<Rightarrow> (Inr r, st3)))))"

text \<open>
  Two invariants of the resolver state, used in the proofs: the table holds only answers of
  the contract, and the request log lists the table's keys without repetition.
\<close>

definition memo_ok :: "(int \<Rightarrow> int) \<Rightarrow> resolver_state \<Rightarrow> bool" where
  "memo_ok rd st = (\<forall>b v. queriedIds st b = Some v \<longrightarrow> v = rd b)"

definition log_ok :: "resolver_state \<Rightarrow> bool" where
  "log_ok st = (distinct (calls st) \<and> set (calls st) = dom (queriedIds st))"

section \<open>The hub pool client (HubPoolClient)\<close>

subsection \<open>Events and client state\<close>

record SortableEvent =
  blockNumber :: int
  transactionIndex :: int
  logIndex :: int

record ProposedRootBundle = SortableEvent +
  poolRebalanceRoot :: string
  relayerRefundRoot :: string
  slowRelayRoot :: string
  proposer :: string
  poolRebalanceLeafCount :: int
  bundleEvaluationBlockNumbers :: "int list"
  transactionHash :: string

record ExecutedRootBundle = SortableEvent +
  chainId :: int
  l1Tokens :: "string list"
  runningBalances :: "int list"
  groupIndex :: int
  leafId :: int

record L1Token =
  address :: string
  symbol :: string
  decimals :: int

text \<open>
  The fields of the class that the modelled methods read or write. \<open>latestBlockNumber\<close> is
  \<open>None\<close> while it is \<open>undefined\<close>, that is until the first \<open>update()\<close>. The token list is
  named \<open>l1TokenInfos\<close> here (\<open>this.l1Tokens\<close> in the source), since an executed leaf has a
  field \<open>l1Tokens\<close> of its own.
\<close>

record HubPoolClient =
  l1TokenInfos :: "L1Token list"
  proposedRootBundles :: "ProposedRootBundle list"
  executedRootBundles :: "ExecutedRootBundle list"
  latestBlockNumber :: "int option"

subsection \<open>Library functions the methods call\<close>

text \<open>\<open>Array.prototype.indexOf\<close>: the first index holding the value, \<open>-1\<close> when there is none.\<close>

fun indexOf :: "'a list \<Rightarrow> 'a \<Rightarrow> int" where
  "indexOf [] x = - 1"
| "indexOf (y # ys) x =
     (if y = x then 0 else (let r = indexOf ys x in if r = - 1 then - 1 else r + 1))"

text \<open>lodash's \<open>findLastIndex\<close>: the last index whose element satisfies the predicate, or \<open>-1\<close>.\<close>

fun findLastIndex :: "'a list \<Rightarrow> ('a \<Rightarrow> bool) \<Rightarrow> int" where
  "findLastIndex [] p = - 1"
| "findLastIndex (y # ys) p =
     (let r = findLastIndex ys p
      in if r \<noteq> - 1 then r + 1 else if p y then 0 else - 1)"

text \<open>lodash's \<open>findLast\<close>: the last element that satisfies the predicate.\<close>

definition findLast :: "'a list \<Rightarrow> ('a \<Rightarrow> bool) \<Rightarrow> 'a option" where
  "findLast xs p = find p (rev xs)"

text \<open>
  \<open>BigNumber.toNumber()\<close> of ethers: the value as a JavaScript number when it fits in 53
  bits (magnitude at most \<open>MAX_SAFE_INTEGER\<close>), a thrown overflow fault otherwise. The source's \<open>update()\<close> guards one use of it with
  \<open>try/catch\<close> for that reason.
\<close>

definition toNumber :: "int \<Rightarrow> error + int" where
  "toNumber v = (if \<bar>v\<bar> \<le> MAX_SAFE_INTEGER then Inr v else Inl NumberOverflow)"

text \<open>
  \<open>String.prototype.toLowerCase\<close> on the ASCII letters (token addresses are hexadecimal
  strings); other bytes are left as they are.
\<close>

definition lower_char :: "char \<Rightarrow> char" where
  "lower_char c =
     (let n = (of_char c :: nat) in if 65 \<le> n \<and> n \<le> 90 then char_of (n + 32) else c)"

definition toLowerCase :: "string \<Rightarrow> string" where
  "toLowerCase s = map lower_char s"

text \<open>
  Modelled from the spec: \<open>sortEventsDescending\<close> lives in the repository's utils, which are
  not among the sources. The specification orders events ascending by blockNumber, then
  transactionIndex, then logIndex; this is the same order reversed, as a stable sort of a copy
  (the order on triples is the lexicographic one).
\<close>

definition sortEventsDescending :: "('a SortableEvent_scheme) list \<Rightarrow> ('a SortableEvent_scheme) list" where
  "sortEventsDescending events =
     sort_key (\<lambda>e. (- blockNumber e, - transactionIndex e, - logIndex e)) events"

text \<open>
  The order of events the specification gives (by blockNumber, then transactionIndex, then
  logIndex), as the relation "\<open>x\<close> comes after \<open>y\<close>".
\<close>

definition eventLaterThan :: "'a SortableEvent_scheme \<Rightarrow> 'a SortableEvent_scheme \<Rightarrow> bool" where
  "eventLaterThan x y =
     (blockNumber x > blockNumber y \<or>
      (blockNumber x = blockNumber y \<and>
       (transactionIndex x > transactionIndex y \<or>
        (transactionIndex x = transactionIndex y \<and> logIndex x > logIndex y))))"

subsection \<open>Bundle validity\<close>

definition getFollowingRootBundle ::
  "HubPoolClient \<Rightarrow> ProposedRootBundle \<Rightarrow> ProposedRootBundle option" where
  "getFollowingRootBundle c currentRootBundle =
     (let index = findLastIndex (proposedRootBundles c)
                    (\<lambda>bundle. blockNumber bundle = blockNumber currentRootBundle)
      in if index = - 1 \<or> index = int (length (proposedRootBundles c)) - 1 then None
         else Some (proposedRootBundles c ! nat (index + 1)))"

definition getExecutedLeavesForRootBundle ::
  "HubPoolClient \<Rightarrow> ProposedRootBundle \<Rightarrow> int \<Rightarrow> ExecutedRootBundle list" where
  "getExecutedLeavesForRootBundle c rootBundle latestMainnetBlockToSearch =
     filter (\<lambda>executedLeaf.
        blockNumber executedLeaf \<le> latestMainnetBlockToSearch \<and>
        blockNumber executedLeaf > blockNumber rootBundle) (executedRootBundles c)"

definition isRootBundleValid :: "HubPoolClient \<Rightarrow> ProposedRootBundle \<Rightarrow> int \<Rightarrow> bool" where
  "isRootBundleValid c rootBundle latestMainnetBlock =
     (let nextRootBundle = getFollowingRootBundle c rootBundle;
          executedLeafCount = getExecutedLeavesForRootBundle c rootBundle
            (case nextRootBundle of
               Some n \<Rightarrow> min (blockNumber n) latestMainnetBlock
             | None \<Rightarrow> latestMainnetBlock)
      in int (length executedLeafCount) = poolRebalanceLeafCount rootBundle)"

definition getValidatedRootBundles :: "HubPoolClient \<Rightarrow> int \<Rightarrow> ProposedRootBundle list" where
  "getValidatedRootBundles c latestMainnetBlock =
     filter (\<lambda>rootBundle.
        if blockNumber rootBundle > latestMainnetBlock then False
        else isRootBundleValid c rootBundle latestMainnetBlock) (proposedRootBundles c)"

definition getLatestFullyExecutedRootBundle ::
  "HubPoolClient \<Rightarrow> int \<Rightarrow> ProposedRootBundle option" where
  "getLatestFullyExecutedRootBundle c latestMainnetBlock =
     findLast (proposedRootBundles c) (\<lambda>rootBundle.
        if blockNumber rootBundle > latestMainnetBlock then False
        else isRootBundleValid c rootBundle latestMainnetBlock)"

definition getEarliestFullyExecutedRootBundle ::
  "HubPoolClient \<Rightarrow> int \<Rightarrow> int \<Rightarrow> ProposedRootBundle option" where
  "getEarliestFullyExecutedRootBundle c latestMainnetBlock startBlock =
     find (\<lambda>rootBundle.
        if blockNumber rootBundle > latestMainnetBlock then False
        else if blockNumber rootBundle < startBlock then False
        else isRootBundleValid c rootBundle latestMainnetBlock) (proposedRootBundles c)"

subsection \<open>The n-th fully executed bundle\<close>

text \<open>
  The two \<open>for\<close> loops of \<open>getNthFullyExecutedRootBundle\<close>; the first argument after the
  client counts the passes still to make, \<open>bundleToReturn\<close> and the moving block bound are
  the loop's variables. The block number minus or plus 1 is rounded as a double, like
  the arithmetic of the resolver.
\<close>

fun nthLatestLoop ::
  "HubPoolClient \<Rightarrow> nat \<Rightarrow> ProposedRootBundle option \<Rightarrow> int \<Rightarrow> ProposedRootBundle option" where
  "nthLatestLoop c 0 bundleToReturn nextLatestMainnetBlock = bundleToReturn"
| "nthLatestLoop c (Suc k) bundleToReturn nextLatestMainnetBlock =
     (let found = getLatestFullyExecutedRootBundle c nextLatestMainnetBlock;
          bundleBlockNumber = (case found of Some b \<Rightarrow> blockNumber b | None \<Rightarrow> 0)
      in nthLatestLoop c k found (max 0 (to_double (bundleBlockNumber - 1))))"

fun nthEarliestLoop ::
  "HubPoolClient \<Rightarrow> int \<Rightarrow> nat \<Rightarrow> ProposedRootBundle option \<Rightarrow> int
     \<Rightarrow> ProposedRootBundle option" where
  "nthEarliestLoop c latest 0 bundleToReturn nextStartBlock = bundleToReturn"
| "nthEarliestLoop c latest (Suc k) bundleToReturn nextStartBlock =
     (let found = getEarliestFullyExecutedRootBundle c latest nextStartBlock;
          bundleBlockNumber = (case found of Some b \<Rightarrow> blockNumber b | None \<Rightarrow> 0)
      in nthEarliestLoop c latest k found (min (to_double (bundleBlockNumber + 1)) latest))"

text \<open>
  \<open>!this.latestBlockNumber\<close> holds for \<open>undefined\<close> and for the number 0. \<open>startBlock\<close> is the
  optional parameter; \<open>??\<close> replaces only an absent one.
\<close>

definition getNthFullyExecutedRootBundle ::
  "HubPoolClient \<Rightarrow> int \<Rightarrow> int option \<Rightarrow> error + ProposedRootBundle option" where
  "getNthFullyExecutedRootBundle c n startBlock =
     (if n = 0 then Inl NCannotBeZero
      else (case latestBlockNumber c of
              None \<Rightarrow> Inl ClientNotUpdated
            | Some latest \<Rightarrow>
                if latest = 0 then Inl ClientNotUpdated
                else if n < 0 then
                  Inr (nthLatestLoop c (nat \<bar>n\<bar>) None
                         (case startBlock of Some s \<Rightarrow> s | None \<Rightarrow> latest))
                else
                  Inr (nthEarliestLoop c latest (nat n) None
                         (case startBlock of Some s \<Rightarrow> s | None \<Rightarrow> 0))))"

subsection \<open>Running balances and bundle end blocks\<close>

definition getRunningBalanceBeforeBlockForChain ::
  "HubPoolClient \<Rightarrow> int \<Rightarrow> int \<Rightarrow> string \<Rightarrow> error + int" where
  "getRunningBalanceBeforeBlockForChain c block chain l1Token =
     (case find (\<lambda>executedLeaf.
                  blockNumber executedLeaf \<le> block \<and>
                  chainId executedLeaf = chain \<and>
                  toLowerCase l1Token \<in> set (map toLowerCase (l1Tokens executedLeaf)))
             (sortEventsDescending (executedRootBundles c)) of
        Some mostRecentExecutedRootBundleEvent \<Rightarrow>
          if length (l1Tokens mostRecentExecutedRootBundleEvent)
               \<noteq> length (runningBalances mostRecentExecutedRootBundleEvent)
          then Inl RunningBalancesLengthMismatch
          else (let indexOfL1Token =
                      indexOf (map toLowerCase (l1Tokens mostRecentExecutedRootBundleEvent))
                        (toLowerCase l1Token)
                in Inr (runningBalances mostRecentExecutedRootBundleEvent ! nat indexOfL1Token))
      | None \<Rightarrow> Inr 0)"

definition getBundleEndBlockForChain ::
  "ProposedRootBundle \<Rightarrow> int \<Rightarrow> int list \<Rightarrow> error + int" where
  "getBundleEndBlockForChain proposeRootBundleEvent chain chainIdList =
     (let chainIdIndex = indexOf chainIdList chain
      in if chainIdIndex = - 1 then Inr 0
         else if chainIdIndex \<ge> int (length (bundleEvaluationBlockNumbers proposeRootBundleEvent))
         then Inr 0
         else toNumber (bundleEvaluationBlockNumbers proposeRootBundleEvent ! nat chainIdIndex))"

subsection \<open>Token ingestion in update()\<close>

text \<open>
  The loop \<open>for (const info of tokenInfo)\<close> of \<open>update()\<close>, run on the fetched token infos
  and the current token list. It returns the thrown error, if any, and the token list as the
  loop left it (tokens pushed before a throw stay in the list).
\<close>

fun ingestTokenInfo :: "L1Token list \<Rightarrow> L1Token list \<Rightarrow> error option \<times> L1Token list" where
  "ingestTokenInfo [] tokens = (None, tokens)"
| "ingestTokenInfo (info # rest) tokens =
     (if find (\<lambda>token. symbol token = symbol info) tokens = None then
        (if decimals info > 0 \<and> decimals info \<le> 18
         then ingestTokenInfo rest (tokens @ [info])
         else (Some (UnsupportedHubPoolToken (address info) (symbol info) (decimals info)),
               tokens))
      else ingestTokenInfo rest tokens)"

section \<open>The fee calculator (UBAFeeCalculator)\<close>

text \<open>
  A flow is a deposit, a fill or a refund request. The type guards of the source look at
  which fields are defined: \<open>quoteTimestamp\<close> (deposits), \<open>isSlowRelay\<close> (fills) and
  \<open>fillBlock\<close> (refund requests); an absent field is \<open>None\<close>.
\<close>

record UbaFlow =
  amount :: int
  quoteTimestamp :: "int option"
  isSlowRelay :: "bool option"
  fillBlock :: "int option"

definition isUbaInflow :: "UbaFlow \<Rightarrow> bool" where
  "isUbaInflow flow = (quoteTimestamp flow \<noteq> None)"

definition outflowIsFill :: "UbaFlow \<Rightarrow> bool" where
  "outflowIsFill outflow = (isSlowRelay outflow \<noteq> None)"

definition outflowIsRefund :: "UbaFlow \<Rightarrow> bool" where
  "outflowIsRefund outflow = (fillBlock outflow \<noteq> None)"

definition isUbaOutflow :: "UbaFlow \<Rightarrow> bool" where
  "isUbaOutflow flow = (\<not> isUbaInflow flow \<and> (outflowIsFill flow \<or> outflowIsRefund flow))"

text \<open>
  The state of one spoke; its field \<open>chainId\<close> is named \<open>spokeChainId\<close> here, an executed
  leaf having a \<open>chainId\<close> too.
\<close>

record UBASpokeBalanceType =
  spokeChainId :: int
  recentRequestFlow :: "UbaFlow list"
  lastValidatedRunningBalance :: "int option"

record UBAFlowRange =
  startIndex :: int
  endIndex :: int

record UBAFeeCalculator =
  originSpoke :: UBASpokeBalanceType
  refundSpoke :: UBASpokeBalanceType

datatype spoke_side = Origin | Refund

text \<open>
  \<open>Array.prototype.slice(start, end)\<close>: a negative index counts from the end of the array,
  both indices are clamped to the array.
\<close>

definition slice :: "'a list \<Rightarrow> int \<Rightarrow> int \<Rightarrow> 'a list" where
  "slice xs start end' =
     (let n = int (length xs);
          k = (if start < 0 then max (n + start) 0 else min start n);
          final = (if end' < 0 then max (n + end') 0 else min end' n)
      in take (nat (final - k)) (drop (nat k) xs))"

definition calculateRecentRunningBalance ::
  "UBAFeeCalculator \<Rightarrow> spoke_side \<Rightarrow> UBAFlowRange option \<Rightarrow> int" where
  "calculateRecentRunningBalance calc side flowRange =
     (let fn = (\<lambda>flow validatedRunningBalance.
                  foldl (\<lambda>acc flow.
                           if isUbaInflow flow then acc + amount flow
                           else if isUbaOutflow flow then acc - amount flow
                           else acc)
                    (case validatedRunningBalance of Some v \<Rightarrow> v | None \<Rightarrow> 0) flow);
          spoke = (if side = Origin then originSpoke calc else refundSpoke calc);
          flow = (case flowRange of
                    Some r \<Rightarrow> slice (recentRequestFlow spoke) (startIndex r) (endIndex r)
                  | None \<Rightarrow> recentRequestFlow spoke)
      in fn flow (lastValidatedRunningBalance spoke))"


section \<open>Example data\<close>

text \<open>
  Builders for the concrete ledgers and flows on which the theorems below are instantiated.
  The fields that the modelled methods do not read get fixed values.
\<close>

definition proposal :: "int \<Rightarrow> int \<Rightarrow> int list \<Rightarrow> ProposedRootBundle" where
  "proposal block leafCount evalBlocks =
     \<lparr>blockNumber = block, transactionIndex = 0, logIndex = 0,
      poolRebalanceRoot = ''XX'', relayerRefundRoot = ''XX'', slowRelayRoot = ''XX'',
      proposer = ''0xproposer'', poolRebalanceLeafCount = leafCount,
      bundleEvaluationBlockNumbers = evalBlocks, transactionHash = ''0xhash''\<rparr>"

definition leaf :: "int \<Rightarrow> int \<Rightarrow> int \<Rightarrow> string list \<Rightarrow> int list \<Rightarrow> ExecutedRootBundle" where
  "leaf block logIdx chain tokens balances =
     \<lparr>blockNumber = block, transactionIndex = 0, logIndex = logIdx,
      chainId = chain, l1Tokens = tokens, runningBalances = balances,
      groupIndex = 0, leafId = logIdx\<rparr>"

definition ledger :: "ProposedRootBundle list \<Rightarrow> ExecutedRootBundle list \<Rightarrow> int option \<Rightarrow> HubPoolClient" where
  "ledger proposed executed latest =
     \<lparr>l1TokenInfos = [], proposedRootBundles = proposed, executedRootBundles = executed,
      latestBlockNumber = latest\<rparr>"




text \<open>
  Example ledgers. In \<open>three_leaves\<close> the bundle proposed at block 10 announces three leaves
  and three are executed before the next proposal at block 20; in \<open>two_leaves\<close> only two
  are. In \<open>leaf_after_next_proposal\<close> the bundle proposed at block 10 has its one leaf
  executed at block 30, and a leaf of the next bundle, proposed at block 50, is executed at
  block 60. \<open>three_bundles\<close> has proposals at blocks 10, 20 and 30 with one leaf each, executed
  at blocks 15, 25 and 35. In \<open>leaf_in_next_proposal_block\<close> the leaf of the second bundle is
  executed at block 30, the block of the third proposal. \<open>balances_ledger\<close> has executed
  leaves only.
\<close>

definition three_leaves :: HubPoolClient where
  "three_leaves =
     ledger [proposal 10 3 [], proposal 20 1 []]
       [leaf 12 0 1 [] [], leaf 13 0 10 [] [], leaf 15 0 137 [] [], leaf 25 0 1 [] []]
       (Some 40)"

definition two_leaves :: HubPoolClient where
  "two_leaves =
     ledger [proposal 10 3 [], proposal 20 1 []]
       [leaf 12 0 1 [] [], leaf 13 0 10 [] [], leaf 25 0 1 [] []] (Some 40)"

definition leaf_after_next_proposal :: HubPoolClient where
  "leaf_after_next_proposal =
     ledger [proposal 10 1 [], proposal 50 1 []]
       [leaf 30 0 1 [] [], leaf 60 0 1 [] []] (Some 100)"

definition three_bundles :: HubPoolClient where
  "three_bundles =
     ledger [proposal 10 1 [], proposal 20 1 [], proposal 30 1 []]
       [leaf 15 0 1 [] [], leaf 25 0 1 [] [], leaf 35 0 1 [] []] (Some 40)"

definition leaf_in_next_proposal_block :: HubPoolClient where
  "leaf_in_next_proposal_block =
     ledger [proposal 10 1 [], proposal 20 1 [], proposal 30 1 []]
       [leaf 15 0 1 [] [], leaf 30 0 1 [] [], leaf 35 0 1 [] []] (Some 40)"

definition balances_ledger :: HubPoolClient where
  "balances_ledger =
     ledger []
       [leaf 12 0 1 [''0xAa''] [7], leaf 30 0 1 [''0xbb'', ''0xAA''] [1, 9],
        leaf 30 1 1 [''0xaa''] [11], leaf 30 0 10 [''0xaa''] [5],
        leaf 50 0 1 [''0xaa''] [13]] (Some 60)"

definition token :: "string \<Rightarrow> string \<Rightarrow> int \<Rightarrow> L1Token" where
  "token a s d = \<lparr>address = a, symbol = s, decimals = d\<rparr>"

definition inflow :: "int \<Rightarrow> UbaFlow" where
  "inflow a = \<lparr>amount = a, quoteTimestamp = Some 1700000000, isSlowRelay = None, fillBlock = None\<rparr>"

definition outflow :: "int \<Rightarrow> UbaFlow" where
  "outflow a = \<lparr>amount = a, quoteTimestamp = None, isSlowRelay = Some False, fillBlock = None\<rparr>"

definition spoke_with :: "int \<Rightarrow> UbaFlow list \<Rightarrow> int option \<Rightarrow> UBASpokeBalanceType" where
  "spoke_with chain flows validated =
     \<lparr>spokeChainId = chain, recentRequestFlow = flows, lastValidatedRunningBalance = validated\<rparr>"

section \<open>Properties of the block range resolver\<close>

lemma memo_ok_initial: "memo_ok rd initial_resolver_state"
  by (simp add: memo_ok_def initial_resolver_state_def)

lemma log_ok_initial: "log_ok initial_resolver_state"
  by (simp add: log_ok_def initial_resolver_state_def)

lemma getDepositIdAtBlock_value:
  "memo_ok rd st \<Longrightarrow> fst (getDepositIdAtBlock rd b st) = rd b"
  by (auto simp: getDepositIdAtBlock_def memo_ok_def Let_def split: option.splits)

lemma getDepositIdAtBlock_memo_ok:
  "memo_ok rd st \<Longrightarrow> memo_ok rd (snd (getDepositIdAtBlock rd b st))"
  by (auto simp: getDepositIdAtBlock_def memo_ok_def Let_def split: option.splits)

lemma getDepositIdAtBlock_log_ok:
  "log_ok st \<Longrightarrow> log_ok (snd (getDepositIdAtBlock rd b st))"
  by (auto simp: getDepositIdAtBlock_def log_ok_def Let_def split: option.splits)





lemma bisect_step_unfold:
  "bisect_step rd t low high st =
     (let mid = to_double (low + high) div 2;
          r1 = getDepositIdAtBlock rd mid st;
          r2 = (if mid = 0 then (0, snd r1)
                else getDepositIdAtBlock rd (to_double (mid - 1)) (snd r1))
      in ((if t < fst r2 then (low, to_double (mid - 1))
           else if t > to_double (fst r1 - 1) then (to_double (mid + 1), high)
           else (mid, mid)), snd r2))"
  by (simp add: bisect_step_def Let_def split: prod.splits)

lemma bisect_step_log_ok:
  "log_ok st \<Longrightarrow> log_ok (snd (bisect_step rd t low high st))"
  by (simp add: bisect_step_unfold Let_def getDepositIdAtBlock_log_ok)



lemma bisect_log_ok:
  "log_ok st \<Longrightarrow> log_ok (snd (bisect rd t m low high s st))"
proof (induction rd t m low high s st rule: bisect.induct)
  case (1 rd t m low high s st)
  obtain l' h' st' where step: "bisect_step rd t low high st = ((l', h'), st')"
    by (metis prod.exhaust)
  have ok': "log_ok st'"
    using bisect_step_log_ok [OF "1.prems", of rd t low high] step by simp
  show ?case
  proof (cases "s + 1 < m \<and> l' < h'")
    case True
    then show ?thesis
      using "1.IH" [OF step [symmetric] refl _ ok'] step
      by (subst bisect.simps) simp
  next
    case False
    then show ?thesis
      using step ok' by (subst bisect.simps) auto
  qed
qed




lemma getBlockRange_unfold:
  "getBlockRangeForDepositId t low high m rd =
     (let r1 = getDepositIdAtBlock rd high initial_resolver_state;
          r2 = getDepositIdAtBlock rd low (snd r1);
          r3 = bisect rd t m low high 0 (snd r2)
      in if low < 0 then (Inl LowNegative, initial_resolver_state)
         else if low > high then (Inl LowAboveHigh, initial_resolver_state)
         else if m \<le> 0 then (Inl MaxSearchesNotPositive, initial_resolver_state)
         else if fst r1 < t then (Inl DepositIdNotFound, snd r1)
         else if fst r2 > t then (Inl DepositIdNotFound, snd r2)
         else (Inr (fst r3), snd r3))"
  by (simp add: getBlockRangeForDepositId_def Let_def split: prod.splits)

lemma getBlockRange_values:
  "fst (getDepositIdAtBlock rd high initial_resolver_state) = rd high"
  "fst (getDepositIdAtBlock rd low (snd (getDepositIdAtBlock rd high initial_resolver_state)))
     = rd low"
  by (simp_all add: getDepositIdAtBlock_value getDepositIdAtBlock_memo_ok memo_ok_initial)


lemma resolver_low_negative:
  "low < 0 \<Longrightarrow>
     getBlockRangeForDepositId t low high m rd = (Inl LowNegative, initial_resolver_state)"
  by (simp add: getBlockRangeForDepositId_def)

lemma resolver_low_above_high:
  "0 \<le> low \<Longrightarrow> high < low \<Longrightarrow>
     getBlockRangeForDepositId t low high m rd = (Inl LowAboveHigh, initial_resolver_state)"
  by (simp add: getBlockRangeForDepositId_def)

lemma resolver_max_searches:
  "0 \<le> low \<Longrightarrow> low \<le> high \<Longrightarrow> m \<le> 0 \<Longrightarrow>
     getBlockRangeForDepositId t low high m rd
       = (Inl MaxSearchesNotPositive, initial_resolver_state)"
  by (simp add: getBlockRangeForDepositId_def)

lemma resolver_high_too_small:
  "0 \<le> low \<Longrightarrow> low \<le> high \<Longrightarrow> 0 < m \<Longrightarrow> rd high < t \<Longrightarrow>
     getBlockRangeForDepositId t low high m rd
       = (Inl DepositIdNotFound, \<lparr>queriedIds = [high \<mapsto> rd high], calls = [high]\<rparr>)"
  by (simp add: getBlockRange_unfold Let_def getBlockRange_values)
    (auto simp add: getDepositIdAtBlock_def initial_resolver_state_def Let_def)

lemma resolver_low_too_large:
  "0 \<le> low \<Longrightarrow> low \<le> high \<Longrightarrow> 0 < m \<Longrightarrow> t \<le> rd high \<Longrightarrow> t < rd low \<Longrightarrow>
     getBlockRangeForDepositId t low high m rd
       = (Inl DepositIdNotFound,
          if low = high then \<lparr>queriedIds = [high \<mapsto> rd high], calls = [high]\<rparr>
          else \<lparr>queriedIds = [high \<mapsto> rd high, low \<mapsto> rd low], calls = [high, low]\<rparr>)"
  by (simp add: getBlockRange_unfold Let_def getBlockRange_values)
    (auto simp add: getDepositIdAtBlock_def initial_resolver_state_def Let_def)




text \<open>
  Claim C3. Each violated precondition makes the call fail at its guard, in the order of the
  guards: a negative low, a low above high and a non-positive \<open>maxSearches\<close> fail with their
  own range error before the contract is asked anything; a counter at high below the target,
  or a counter at low above it, fails with the error "Failed to find deposit ID" after the
  contract was asked for the ends of the bracket only. The result is an error, never a
  bracket. The three range errors are of kind \<open>InvalidRange\<close>, the last of kind
  \<open>TargetUnreachable\<close>.
\<close>

theorem resolver_precondition_failures:
  "(low < 0 \<longrightarrow>
      getBlockRangeForDepositId t low high m rd = (Inl LowNegative, initial_resolver_state)) \<and>
   (0 \<le> low \<and> high < low \<longrightarrow>
      getBlockRangeForDepositId t low high m rd = (Inl LowAboveHigh, initial_resolver_state)) \<and>
   (0 \<le> low \<and> low \<le> high \<and> m \<le> 0 \<longrightarrow>
      getBlockRangeForDepositId t low high m rd
        = (Inl MaxSearchesNotPositive, initial_resolver_state)) \<and>
   (0 \<le> low \<and> low \<le> high \<and> 0 < m \<and> rd high < t \<longrightarrow>
      getBlockRangeForDepositId t low high m rd
        = (Inl DepositIdNotFound, \<lparr>queriedIds = [high \<mapsto> rd high], calls = [high]\<rparr>)) \<and>
   (0 \<le> low \<and> low \<le> high \<and> 0 < m \<and> t \<le> rd high \<and> t < rd low \<longrightarrow>
      getBlockRangeForDepositId t low high m rd
        = (Inl DepositIdNotFound,
           if low = high then \<lparr>queriedIds = [high \<mapsto> rd high], calls = [high]\<rparr>
           else \<lparr>queriedIds = [high \<mapsto> rd high, low \<mapsto> rd low], calls = [high, low]\<rparr>)) \<and>
   calls initial_resolver_state = [] \<and>
   failure_kind_of LowNegative = InvalidRange \<and>
   failure_kind_of LowAboveHigh = InvalidRange \<and>
   failure_kind_of MaxSearchesNotPositive = InvalidRange \<and>
   failure_kind_of DepositIdNotFound = TargetUnreachable \<and>
   distinct [LowNegative, LowAboveHigh, MaxSearchesNotPositive, DepositIdNotFound]"
proof -
  have kinds: "calls initial_resolver_state = []"
    "distinct [LowNegative, LowAboveHigh, MaxSearchesNotPositive, DepositIdNotFound]"
    by (simp_all add: initial_resolver_state_def)
  show ?thesis
    using resolver_low_negative [of low t high m rd]
      resolver_low_above_high [of low high t m rd]
      resolver_max_searches [of low high m t rd]
      resolver_high_too_small [of low high m rd t]
      resolver_low_too_large [of low high m t rd]
      kinds
    by simp
qed

theorem resolver_precondition_failures_witness:
  "getBlockRangeForDepositId 5 (- 1) 10 10 (\<lambda>b. 3) = (Inl LowNegative, initial_resolver_state) \<and>
   getBlockRangeForDepositId 5 11 10 10 (\<lambda>b. 3) = (Inl LowAboveHigh, initial_resolver_state) \<and>
   getBlockRangeForDepositId 5 0 10 0 (\<lambda>b. 3)
     = (Inl MaxSearchesNotPositive, initial_resolver_state) \<and>
   getBlockRangeForDepositId 5 0 10 10 (\<lambda>b. 3)
     = (Inl DepositIdNotFound, \<lparr>queriedIds = [10 \<mapsto> 3], calls = [10]\<rparr>) \<and>
   getBlockRangeForDepositId 5 0 10 10 (\<lambda>b. 7)
     = (Inl DepositIdNotFound, \<lparr>queriedIds = [10 \<mapsto> 7, 0 \<mapsto> 7], calls = [10, 0]\<rparr>)"
  using resolver_precondition_failures [where low = "- 1" and t = 5 and high = 10 and m = 10
        and rd = "\<lambda>b. 3"]
    resolver_precondition_failures [where low = 11 and t = 5 and high = 10 and m = 10
        and rd = "\<lambda>b. 3"]
    resolver_precondition_failures [where low = 0 and t = 5 and high = 10 and m = 0
        and rd = "\<lambda>b. 3"]
    resolver_precondition_failures [where low = 0 and t = 5 and high = 10 and m = 10
        and rd = "\<lambda>b. 3"]
    resolver_precondition_failures [where low = 0 and t = 5 and high = 10 and m = 10
        and rd = "\<lambda>b. 7"]
  by simp

text \<open>
  Claim C4. Whatever the arguments and the contract's answers, and whether the call fails or
  returns, no block number occurs twice in the log of requests sent to the contract, and the
  blocks requested are exactly the keys of the table: a lookup of a block that is in the table
  is answered from it.
\<close>

theorem resolver_queries_each_block_once:
  "distinct (calls (snd (getBlockRangeForDepositId t low high m rd))) \<and>
   set (calls (snd (getBlockRangeForDepositId t low high m rd)))
     = dom (queriedIds (snd (getBlockRangeForDepositId t low high m rd)))"
proof -
  define st1 where "st1 = snd (getDepositIdAtBlock rd high initial_resolver_state)"
  define st2 where "st2 = snd (getDepositIdAtBlock rd low st1)"
  have ok1: "log_ok st1"
    by (simp add: st1_def getDepositIdAtBlock_log_ok log_ok_initial)
  have ok2: "log_ok st2"
    by (simp add: st2_def getDepositIdAtBlock_log_ok ok1)
  have ok3: "log_ok (snd (bisect rd t m low high 0 st2))"
    by (rule bisect_log_ok [OF ok2])
  have "log_ok (snd (getBlockRangeForDepositId t low high m rd))"
    using ok1 ok2 ok3 log_ok_initial
    by (simp add: getBlockRange_unfold Let_def st1_def st2_def)
  then show ?thesis
    by (simp add: log_ok_def)
qed

theorem resolver_queries_each_block_once_witness:
  "calls (snd (getBlockRangeForDepositId 5 0 10 10 id)) = [10, 0, 5, 4, 8, 7, 6] \<and>
   distinct (calls (snd (getBlockRangeForDepositId 5 0 10 10 id)))"
proof -
  have "calls (snd (getBlockRangeForDepositId 5 0 10 10 id)) = [10, 0, 5, 4, 8, 7, 6]"
    by code_simp
  then show ?thesis
    using resolver_queries_each_block_once [of 5 0 10 10 id] by simp
qed


section \<open>Properties of the hub pool client\<close>

text \<open>
  Facts about \<open>findLastIndex\<close> and about the bundle that follows a bundle in the ledger: none
  when no proposal has the bundle's block number, else the proposal right after the last one
  that has it, if there is one.
\<close>

lemma findLastIndex_none:
  "findLastIndex xs p = - 1 \<longleftrightarrow> (\<forall>x \<in> set xs. \<not> p x)"
  and findLastIndex_lower: "- 1 \<le> findLastIndex xs p"
  by (induction xs) (auto simp: Let_def)

lemma findLastIndex_last:
  "i < length xs \<Longrightarrow> p (xs ! i) \<Longrightarrow> (\<forall>j. i < j \<and> j < length xs \<longrightarrow> \<not> p (xs ! j)) \<Longrightarrow>
     findLastIndex xs p = int i"
proof (induction xs arbitrary: i)
  case Nil
  then show ?case by simp
next
  case (Cons y ys)
  show ?case
  proof (cases i)
    case 0
    have "\<forall>x \<in> set ys. \<not> p x"
    proof
      fix x assume "x \<in> set ys"
      then obtain k where "k < length ys" "ys ! k = x"
        by (auto simp: in_set_conv_nth)
      then show "\<not> p x"
        using Cons.prems(3) [rule_format, of "Suc k"] 0 by auto
    qed
    then have "findLastIndex ys p = - 1"
      by (simp add: findLastIndex_none)
    then show ?thesis
      using 0 Cons.prems(2) by simp
  next
    case (Suc i')
    have "findLastIndex ys p = int i'"
    proof (rule Cons.IH)
      show "i' < length ys" using Cons.prems(1) Suc by simp
      show "p (ys ! i')" using Cons.prems(2) Suc by simp
      show "\<forall>j. i' < j \<and> j < length ys \<longrightarrow> \<not> p (ys ! j)"
        using Cons.prems(3) Suc by (metis Suc_less_eq length_Cons nth_Cons_Suc)
    qed
    then show ?thesis
      using Suc by (simp add: Let_def)
  qed
qed

lemma following_absent:
  assumes "\<forall>p \<in> set (proposedRootBundles c). blockNumber p \<noteq> blockNumber b"
  shows "getFollowingRootBundle c b = None"
  using assms by (simp add: getFollowingRootBundle_def findLastIndex_none)

lemma following_at:
  assumes "i < length (proposedRootBundles c)"
    "blockNumber (proposedRootBundles c ! i) = blockNumber b"
    "\<forall>j. i < j \<and> j < length (proposedRootBundles c) \<longrightarrow>
        blockNumber (proposedRootBundles c ! j) \<noteq> blockNumber b"
  shows "getFollowingRootBundle c b =
           (if Suc i < length (proposedRootBundles c)
            then Some (proposedRootBundles c ! Suc i) else None)"
proof -
  have "findLastIndex (proposedRootBundles c) (\<lambda>bundle. blockNumber bundle = blockNumber b)
          = int i"
    by (rule findLastIndex_last) (use assms in auto)
  then show ?thesis
    using assms(1) by (auto simp: getFollowingRootBundle_def Let_def nat_add_distrib)
qed

lemma leaves_count:
  "int (length (getExecutedLeavesForRootBundle c b k))
     = int (card {n. n < length (executedRootBundles c) \<and>
                     blockNumber b < blockNumber (executedRootBundles c ! n) \<and>
                     blockNumber (executedRootBundles c ! n) \<le> k})"
  unfolding getExecutedLeavesForRootBundle_def length_filter_conv_card
  by (rule arg_cong [where f = "\<lambda>A. int (card A)"]) auto

text \<open>
  Claim C1. Count the executed leaves by their position in the list of executed events, and
  read the following bundle off the list of proposals: it is the proposal right after the
  last proposal with the bundle's block number. When no proposal has the bundle's block
  number, the bundle is valid as of a horizon block exactly when the number of executed
  leaves with a block strictly after the bundle's and at most the horizon equals its
  \<open>poolRebalanceLeafCount\<close>. When the proposal at position \<open>i\<close> is the last with the
  bundle's block number, the bundle is valid exactly when that number equals the count of
  leaves strictly after the bundle's block and at most the smaller of the horizon and the
  block of the proposal at position \<open>i + 1\<close>, or at most the horizon when position \<open>i\<close> is
  the last of the list.
\<close>

theorem isRootBundleValid_iff:
  "((\<forall>p \<in> set (proposedRootBundles c). blockNumber p \<noteq> blockNumber b) \<longrightarrow>
      (isRootBundleValid c b horizon \<longleftrightarrow>
         int (card {n. n < length (executedRootBundles c) \<and>
                       blockNumber b < blockNumber (executedRootBundles c ! n) \<and>
                       blockNumber (executedRootBundles c ! n) \<le> horizon})
           = poolRebalanceLeafCount b)) \<and>
   (i < length (proposedRootBundles c) \<and>
    blockNumber (proposedRootBundles c ! i) = blockNumber b \<and>
    (\<forall>j. i < j \<and> j < length (proposedRootBundles c) \<longrightarrow>
         blockNumber (proposedRootBundles c ! j) \<noteq> blockNumber b) \<longrightarrow>
      (isRootBundleValid c b horizon \<longleftrightarrow>
         int (card {n. n < length (executedRootBundles c) \<and>
                       blockNumber b < blockNumber (executedRootBundles c ! n) \<and>
                       blockNumber (executedRootBundles c ! n)
                         \<le> (if Suc i < length (proposedRootBundles c)
                             then min (blockNumber (proposedRootBundles c ! Suc i)) horizon
                             else horizon)})
           = poolRebalanceLeafCount b))"
proof (intro conjI impI)
  assume "\<forall>p \<in> set (proposedRootBundles c). blockNumber p \<noteq> blockNumber b"
  then have "getFollowingRootBundle c b = None"
    by (rule following_absent)
  then show "isRootBundleValid c b horizon \<longleftrightarrow>
         int (card {n. n < length (executedRootBundles c) \<and>
                       blockNumber b < blockNumber (executedRootBundles c ! n) \<and>
                       blockNumber (executedRootBundles c ! n) \<le> horizon})
           = poolRebalanceLeafCount b"
    by (simp add: isRootBundleValid_def Let_def leaves_count)
next
  assume a: "i < length (proposedRootBundles c) \<and>
    blockNumber (proposedRootBundles c ! i) = blockNumber b \<and>
    (\<forall>j. i < j \<and> j < length (proposedRootBundles c) \<longrightarrow>
         blockNumber (proposedRootBundles c ! j) \<noteq> blockNumber b)"
  have "getFollowingRootBundle c b =
           (if Suc i < length (proposedRootBundles c)
            then Some (proposedRootBundles c ! Suc i) else None)"
    by (rule following_at) (use a in auto)
  then show "isRootBundleValid c b horizon \<longleftrightarrow>
         int (card {n. n < length (executedRootBundles c) \<and>
                       blockNumber b < blockNumber (executedRootBundles c ! n) \<and>
                       blockNumber (executedRootBundles c ! n)
                         \<le> (if Suc i < length (proposedRootBundles c)
                             then min (blockNumber (proposedRootBundles c ! Suc i)) horizon
                             else horizon)})
           = poolRebalanceLeafCount b"
    by (simp add: isRootBundleValid_def Let_def leaves_count)
qed

theorem isRootBundleValid_iff_witness:
  "isRootBundleValid three_leaves (proposal 10 3 []) 40 \<and>
   \<not> isRootBundleValid two_leaves (proposal 10 3 []) 40 \<and>
   isRootBundleValid leaf_after_next_proposal (proposal 10 1 []) 100 \<and>
   int (card {n. n < length (executedRootBundles leaf_after_next_proposal) \<and>
                 10 < blockNumber (executedRootBundles leaf_after_next_proposal ! n) \<and>
                 blockNumber (executedRootBundles leaf_after_next_proposal ! n) \<le> 50}) = 1"
proof -
  have a: "isRootBundleValid three_leaves (proposal 10 3 []) 40"
    by code_simp
  have b: "\<not> isRootBundleValid two_leaves (proposal 10 3 []) 40"
    by code_simp
  have c: "isRootBundleValid leaf_after_next_proposal (proposal 10 1 []) 100"
    by code_simp
  have ps: "proposedRootBundles leaf_after_next_proposal = [proposal 10 1 [], proposal 50 1 []]"
    by (simp add: leaf_after_next_proposal_def ledger_def)
  have last: "0 < length (proposedRootBundles leaf_after_next_proposal) \<and>
      blockNumber (proposedRootBundles leaf_after_next_proposal ! 0)
        = blockNumber (proposal 10 1 []) \<and>
      (\<forall>j. 0 < j \<and> j < length (proposedRootBundles leaf_after_next_proposal) \<longrightarrow>
           blockNumber (proposedRootBundles leaf_after_next_proposal ! j)
             \<noteq> blockNumber (proposal 10 1 []))"
    unfolding ps by (auto simp: proposal_def less_Suc_eq)
  have "isRootBundleValid leaf_after_next_proposal (proposal 10 1 []) 100 \<longleftrightarrow>
      int (card {n. n < length (executedRootBundles leaf_after_next_proposal) \<and>
                    blockNumber (proposal 10 1 [])
                      < blockNumber (executedRootBundles leaf_after_next_proposal ! n) \<and>
                    blockNumber (executedRootBundles leaf_after_next_proposal ! n)
                      \<le> (if Suc 0 < length (proposedRootBundles leaf_after_next_proposal)
                          then min (blockNumber
                                 (proposedRootBundles leaf_after_next_proposal ! Suc 0)) 100
                          else 100)})
        = poolRebalanceLeafCount (proposal 10 1 [])"
    using isRootBundleValid_iff [of leaf_after_next_proposal "proposal 10 1 []" 100 0] last
    by blast
  then have "int (card {n. n < length (executedRootBundles leaf_after_next_proposal) \<and>
                 10 < blockNumber (executedRootBundles leaf_after_next_proposal ! n) \<and>
                 blockNumber (executedRootBundles leaf_after_next_proposal ! n) \<le> 50}) = 1"
    using c unfolding ps by (simp add: proposal_def)
  then show ?thesis
    using a b c by simp
qed

text \<open>Facts about \<open>indexOf\<close>: \<open>-1\<close> exactly for an absent value, else the first position.\<close>

lemma indexOf_absent: "indexOf xs x = - 1 \<longleftrightarrow> x \<notin> set xs"
  and indexOf_lower: "- 1 \<le> indexOf xs x"
  by (induction xs) (auto simp: Let_def)

lemma indexOf_present:
  "x \<in> set xs \<Longrightarrow> 0 \<le> indexOf xs x \<and> nat (indexOf xs x) < length xs \<and>
     xs ! nat (indexOf xs x) = x \<and> (\<forall>j < nat (indexOf xs x). xs ! j \<noteq> x)"
proof (induction xs)
  case Nil
  then show ?case by simp
next
  case (Cons y ys)
  show ?case
  proof (cases "y = x")
    case True
    then show ?thesis by simp
  next
    case False
    then have mem: "x \<in> set ys" using Cons.prems by simp
    have ih: "0 \<le> indexOf ys x" "nat (indexOf ys x) < length ys"
      "ys ! nat (indexOf ys x) = x" "\<forall>j < nat (indexOf ys x). ys ! j \<noteq> x"
      using Cons.IH [OF mem] by auto
    have eq: "indexOf (y # ys) x = indexOf ys x + 1"
      using False ih(1) by (simp add: Let_def)
    have n: "nat (indexOf ys x + 1) = Suc (nat (indexOf ys x))"
      using ih(1) by simp
    show ?thesis
      unfolding eq n using ih False by (auto simp: nth_Cons split: nat.splits)
  qed
qed

text \<open>
  The lookup of \<open>getBundleEndBlockForChain\<close>. The end block of a chain is 0 when the chain is
  not in the chain-id list and when its index in the list is not below the length of the
  bundle's evaluation-block array; otherwise it is the array's element at that index (the
  first position of the chain in the list), provided the element fits a JavaScript number
  (magnitude at most \<open>2^53 - 1\<close>), which is what \<open>toNumber()\<close> converts.
\<close>

theorem getBundleEndBlockForChain_lookup:
  "(chain \<notin> set chainIdList \<longrightarrow> getBundleEndBlockForChain bundle chain chainIdList = Inr 0) \<and>
   (chain \<in> set chainIdList \<and>
      length (bundleEvaluationBlockNumbers bundle) \<le> nat (indexOf chainIdList chain) \<longrightarrow>
        getBundleEndBlockForChain bundle chain chainIdList = Inr 0) \<and>
   (chain \<in> set chainIdList \<and>
      nat (indexOf chainIdList chain) < length (bundleEvaluationBlockNumbers bundle) \<and>
      \<bar>bundleEvaluationBlockNumbers bundle ! nat (indexOf chainIdList chain)\<bar> \<le> MAX_SAFE_INTEGER \<longrightarrow>
        getBundleEndBlockForChain bundle chain chainIdList
          = Inr (bundleEvaluationBlockNumbers bundle ! nat (indexOf chainIdList chain))) \<and>
   (chain \<in> set chainIdList \<longrightarrow>
      nat (indexOf chainIdList chain) < length chainIdList \<and>
      chainIdList ! nat (indexOf chainIdList chain) = chain \<and>
      (\<forall>j < nat (indexOf chainIdList chain). chainIdList ! j \<noteq> chain))"
proof (intro conjI impI)
  assume "chain \<notin> set chainIdList"
  then show "getBundleEndBlockForChain bundle chain chainIdList = Inr 0"
    by (simp add: getBundleEndBlockForChain_def indexOf_absent)
next
  assume a: "chain \<in> set chainIdList \<and>
      length (bundleEvaluationBlockNumbers bundle) \<le> nat (indexOf chainIdList chain)"
  then have "0 \<le> indexOf chainIdList chain" using indexOf_present [of chain chainIdList] by simp
  then show "getBundleEndBlockForChain bundle chain chainIdList = Inr 0"
    using a by (auto simp: getBundleEndBlockForChain_def Let_def)
next
  assume a: "chain \<in> set chainIdList \<and>
      nat (indexOf chainIdList chain) < length (bundleEvaluationBlockNumbers bundle) \<and>
      \<bar>bundleEvaluationBlockNumbers bundle ! nat (indexOf chainIdList chain)\<bar> \<le> MAX_SAFE_INTEGER"
  then have "0 \<le> indexOf chainIdList chain" using indexOf_present [of chain chainIdList] by simp
  then show "getBundleEndBlockForChain bundle chain chainIdList
          = Inr (bundleEvaluationBlockNumbers bundle ! nat (indexOf chainIdList chain))"
    using a by (auto simp: getBundleEndBlockForChain_def Let_def toNumber_def)
next
  assume "chain \<in> set chainIdList"
  then show "nat (indexOf chainIdList chain) < length chainIdList"
    "chainIdList ! nat (indexOf chainIdList chain) = chain"
    "\<forall>j < nat (indexOf chainIdList chain). chainIdList ! j \<noteq> chain"
    using indexOf_present [of chain chainIdList] by auto
qed

theorem getBundleEndBlockForChain_lookup_witness:
  "getBundleEndBlockForChain (proposal 100 2 [1000, 2000]) 10 [1, 10, 137] = Inr 2000 \<and>
   getBundleEndBlockForChain (proposal 100 2 [1000, 2000]) 137 [1, 10, 137] = Inr 0 \<and>
   getBundleEndBlockForChain (proposal 100 2 [1000, 2000]) 42161 [1, 10, 137] = Inr 0"
  using getBundleEndBlockForChain_lookup [of 10 "[1, 10, 137]" "proposal 100 2 [1000, 2000]"]
    getBundleEndBlockForChain_lookup [of 137 "[1, 10, 137]" "proposal 100 2 [1000, 2000]"]
    getBundleEndBlockForChain_lookup [of 42161 "[1, 10, 137]" "proposal 100 2 [1000, 2000]"]
  by (simp add: proposal_def MAX_SAFE_INTEGER_def Let_def)

text \<open>
  Claim C8 says that the element at the chain's index is returned for every bundle. The code
  does not do so for a bundle whose evaluation block at that index is \<open>2^53\<close> or more: the
  conversion \<open>toNumber()\<close> throws, and with it the call, where \<open>update()\<close> catches the same
  fault and carries on with 0. Here the chain has index 0, the element there is \<open>2^53\<close>, and
  the call fails.
\<close>

theorem getBundleEndBlockForChain_overflow:
  "getBundleEndBlockForChain (proposal 100 1 [9007199254740992]) 1 [1] = Inl NumberOverflow \<and>
   bundleEvaluationBlockNumbers (proposal 100 1 [9007199254740992]) ! nat (indexOf [1 :: int] 1)
     = 9007199254740992"
  by (simp add: getBundleEndBlockForChain_def proposal_def toNumber_def MAX_SAFE_INTEGER_def)

text \<open>
  Claim C10. With \<open>n = 0\<close> the call fails with "n cannot be 0" whatever the state of the
  client, so that check comes first; with any other \<open>n\<close> it fails with the "client not
  updated" error whenever the latest block number is unset.
\<close>

theorem getNth_not_updated:
  "getNthFullyExecutedRootBundle c 0 startBlock = Inl NCannotBeZero \<and>
   failure_kind_of NCannotBeZero = InvalidArgument \<and>
   (n \<noteq> 0 \<and> latestBlockNumber c = None \<longrightarrow>
      getNthFullyExecutedRootBundle c n startBlock = Inl ClientNotUpdated) \<and>
   ClientNotUpdated \<noteq> NCannotBeZero"
  by (simp add: getNthFullyExecutedRootBundle_def)

theorem getNth_not_updated_witness:
  "getNthFullyExecutedRootBundle (ledger [] [] None) 0 None = Inl NCannotBeZero \<and>
   getNthFullyExecutedRootBundle (ledger [] [] None) (- 1) None = Inl ClientNotUpdated \<and>
   getNthFullyExecutedRootBundle (ledger [] [] None) 2 (Some 5) = Inl ClientNotUpdated"
  using getNth_not_updated [of "ledger [] [] None" None "- 1"]
    getNth_not_updated [of "ledger [] [] None" "Some 5" 2]
  by (simp add: ledger_def)

text \<open>Facts about the ingestion loop, by induction on the fetched token infos.\<close>

lemma find_None_symbol:
  "find (\<lambda>token. symbol token = s) tokens = None \<longleftrightarrow> s \<notin> symbol ` set tokens"
  by (auto simp: find_None_iff)

lemma ingest_appends:
  "\<exists>added. snd (ingestTokenInfo infos tokens) = tokens @ added \<and>
     (\<forall>t \<in> set added. t \<in> set infos \<and> 0 < decimals t \<and> decimals t \<le> 18)"
proof (induction infos arbitrary: tokens)
  case Nil
  then show ?case by simp
next
  case (Cons info rest)
  show ?case
  proof (cases "find (\<lambda>token. symbol token = symbol info) tokens = None \<and>
                0 < decimals info \<and> decimals info \<le> 18")
    case True
    obtain added where "snd (ingestTokenInfo rest (tokens @ [info])) = (tokens @ [info]) @ added"
      "\<forall>t \<in> set added. t \<in> set rest \<and> 0 < decimals t \<and> decimals t \<le> 18"
      using Cons.IH [of "tokens @ [info]"] by blast
    then show ?thesis
      using True by (intro exI [of _ "info # added"]) auto
  next
    case False
    obtain added where "snd (ingestTokenInfo rest tokens) = tokens @ added"
      "\<forall>t \<in> set added. t \<in> set rest \<and> 0 < decimals t \<and> decimals t \<le> 18"
      using Cons.IH [of tokens] by blast
    then show ?thesis
      using False by (cases "find (\<lambda>token. symbol token = symbol info) tokens = None") auto
  qed
qed

lemma ingest_grows:
  "set tokens \<subseteq> set (snd (ingestTokenInfo infos tokens))"
  using ingest_appends [of infos tokens] by auto

lemma ingest_error:
  "fst (ingestTokenInfo infos tokens) = Some e \<Longrightarrow>
     \<exists>info \<in> set infos.
        e = UnsupportedHubPoolToken (address info) (symbol info) (decimals info) \<and>
        \<not> (0 < decimals info \<and> decimals info \<le> 18) \<and>
        symbol info \<notin> symbol ` set (snd (ingestTokenInfo infos tokens))"
proof (induction infos arbitrary: tokens)
  case Nil
  then show ?case by simp
next
  case (Cons info rest)
  then show ?case
    by (auto simp: find_None_symbol split: if_splits)
qed

lemma ingest_accepts:
  "fst (ingestTokenInfo infos tokens) = None \<Longrightarrow> info \<in> set infos \<Longrightarrow>
     symbol info \<in> symbol ` set (snd (ingestTokenInfo infos tokens))"
proof (induction infos arbitrary: tokens)
  case Nil
  then show ?case by simp
next
  case (Cons i rest)
  show ?case
  proof (cases "info = i")
    case True
    show ?thesis
    proof (cases "find (\<lambda>token. symbol token = symbol i) tokens = None")
      case n: True
      then have ok: "0 < decimals i \<and> decimals i \<le> 18"
        using Cons.prems(1) by (auto split: if_splits)
      have "i \<in> set (snd (ingestTokenInfo rest (tokens @ [i])))"
        using ingest_grows [of "tokens @ [i]" rest] by auto
      then show ?thesis using n ok True by auto
    next
      case False
      then have "symbol i \<in> symbol ` set tokens" by (simp add: find_None_symbol)
      then have "symbol i \<in> symbol ` set (snd (ingestTokenInfo rest tokens))"
        using ingest_grows [of tokens rest] by auto
      then show ?thesis using False True by auto
    qed
  next
    case False
    then have mem: "info \<in> set rest" using Cons.prems(2) by simp
    show ?thesis
      using Cons.IH [OF _ mem] Cons.prems(1) by (auto split: if_splits)
  qed
qed

text \<open>
  Claim C9, as the code has it. A fetched token whose symbol is not yet in the token list and
  whose decimals lie outside \<open>(0, 18]\<close> makes the loop fail with the "Unsupported HubPool
  token" error and leaves the list as it was; one with a new symbol and decimals in
  \<open>(0, 18]\<close> is appended; one whose symbol is already in the list is passed over, whatever
  its decimals. Over a whole batch: the list only grows, by tokens of the batch with decimals
  in \<open>(0, 18]\<close>; a failure names a token of the batch with decimals outside \<open>(0, 18]\<close>
  whose symbol is not in the list; and without a failure the symbol of every token of the
  batch is in the list afterwards.
\<close>

theorem token_ingestion:
  "(symbol info \<notin> symbol ` set tokens \<and> \<not> (0 < decimals info \<and> decimals info \<le> 18) \<longrightarrow>
      ingestTokenInfo (info # rest) tokens
        = (Some (UnsupportedHubPoolToken (address info) (symbol info) (decimals info)), tokens)) \<and>
   (symbol info \<notin> symbol ` set tokens \<and> 0 < decimals info \<and> decimals info \<le> 18 \<longrightarrow>
      ingestTokenInfo (info # rest) tokens = ingestTokenInfo rest (tokens @ [info])) \<and>
   (symbol info \<in> symbol ` set tokens \<longrightarrow>
      ingestTokenInfo (info # rest) tokens = ingestTokenInfo rest tokens) \<and>
   (\<exists>added. snd (ingestTokenInfo infos tokens) = tokens @ added \<and>
      (\<forall>t \<in> set added. t \<in> set infos \<and> 0 < decimals t \<and> decimals t \<le> 18)) \<and>
   (\<forall>e. fst (ingestTokenInfo infos tokens) = Some e \<longrightarrow>
      (\<exists>i \<in> set infos.
          e = UnsupportedHubPoolToken (address i) (symbol i) (decimals i) \<and>
          failure_kind_of e = UnsupportedToken \<and>
          \<not> (0 < decimals i \<and> decimals i \<le> 18) \<and>
          symbol i \<notin> symbol ` set (snd (ingestTokenInfo infos tokens)))) \<and>
   (fst (ingestTokenInfo infos tokens) = None \<longrightarrow>
      (\<forall>i \<in> set infos. symbol i \<in> symbol ` set (snd (ingestTokenInfo infos tokens))))"
proof -
  have step: "(symbol info \<notin> symbol ` set tokens \<and> \<not> (0 < decimals info \<and> decimals info \<le> 18) \<longrightarrow>
      ingestTokenInfo (info # rest) tokens
        = (Some (UnsupportedHubPoolToken (address info) (symbol info) (decimals info)), tokens)) \<and>
   (symbol info \<notin> symbol ` set tokens \<and> 0 < decimals info \<and> decimals info \<le> 18 \<longrightarrow>
      ingestTokenInfo (info # rest) tokens = ingestTokenInfo rest (tokens @ [info])) \<and>
   (symbol info \<in> symbol ` set tokens \<longrightarrow>
      ingestTokenInfo (info # rest) tokens = ingestTokenInfo rest tokens)"
    by (simp add: find_None_symbol)
  have err: "\<forall>e. fst (ingestTokenInfo infos tokens) = Some e \<longrightarrow>
      (\<exists>i \<in> set infos.
          e = UnsupportedHubPoolToken (address i) (symbol i) (decimals i) \<and>
          failure_kind_of e = UnsupportedToken \<and>
          \<not> (0 < decimals i \<and> decimals i \<le> 18) \<and>
          symbol i \<notin> symbol ` set (snd (ingestTokenInfo infos tokens)))"
  proof (intro allI impI)
    fix e assume "fst (ingestTokenInfo infos tokens) = Some e"
    from ingest_error [OF this]
    show "\<exists>i \<in> set infos.
          e = UnsupportedHubPoolToken (address i) (symbol i) (decimals i) \<and>
          failure_kind_of e = UnsupportedToken \<and>
          \<not> (0 < decimals i \<and> decimals i \<le> 18) \<and>
          symbol i \<notin> symbol ` set (snd (ingestTokenInfo infos tokens))"
      by auto
  qed
  have acc: "fst (ingestTokenInfo infos tokens) = None \<longrightarrow>
      (\<forall>i \<in> set infos. symbol i \<in> symbol ` set (snd (ingestTokenInfo infos tokens)))"
    using ingest_accepts [of infos tokens] by blast
  show ?thesis
    using step ingest_appends [of infos tokens] err acc by blast
qed

theorem token_ingestion_witness:
  "ingestTokenInfo [token ''0xB'' ''USDC'' 6, token ''0xC'' ''BAD'' 19, token ''0xD'' ''DAI'' 18]
      [token ''0xA'' ''WETH'' 18]
   = (Some (UnsupportedHubPoolToken ''0xC'' ''BAD'' 19),
      [token ''0xA'' ''WETH'' 18, token ''0xB'' ''USDC'' 6]) \<and>
   ingestTokenInfo [token ''0xA'' ''WETH'' 18, token ''0xD'' ''DAI'' 18] [token ''0xA'' ''WETH'' 18]
   = (None, [token ''0xA'' ''WETH'' 18, token ''0xD'' ''DAI'' 18])"
  using token_ingestion [of "token ''0xB'' ''USDC'' 6" "[token ''0xA'' ''WETH'' 18]"
      "[token ''0xC'' ''BAD'' 19, token ''0xD'' ''DAI'' 18]" "[]"]
    token_ingestion [of "token ''0xC'' ''BAD'' 19"
      "[token ''0xA'' ''WETH'' 18, token ''0xB'' ''USDC'' 6]" "[token ''0xD'' ''DAI'' 18]" "[]"]
    token_ingestion [of "token ''0xA'' ''WETH'' 18" "[token ''0xA'' ''WETH'' 18]"
      "[token ''0xD'' ''DAI'' 18]" "[]"]
    token_ingestion [of "token ''0xD'' ''DAI'' 18" "[token ''0xA'' ''WETH'' 18]" "[]" "[]"]
  by (simp add: token_def)

text \<open>
  A token with decimals outside \<open>(0, 18]\<close> is not always rejected: when the list already
  holds a token of the same symbol, the loop passes over it and ends without an error.
\<close>

theorem token_ingestion_counterexample:
  "ingestTokenInfo [token ''0xB'' ''WETH'' 0] [token ''0xA'' ''WETH'' 18]
     = (None, [token ''0xA'' ''WETH'' 18]) \<and>
   \<not> (0 < decimals (token ''0xB'' ''WETH'' 0) \<and> decimals (token ''0xB'' ''WETH'' 0) \<le> 18)"
  by (simp add: token_def)

text \<open>
  Claim C5 says that \<open>n = -2\<close> returns the second latest fully executed bundle: on a ledger
  with three valid bundles at blocks 10, 20 and 30, the bundle at block 20. The code does so
  on \<open>three_bundles\<close>, where every leaf is executed before the block of the next proposal.
  It does not on \<open>leaf_in_next_proposal_block\<close>: there the three bundles are all valid as of
  the latest block 40, the only leaf of the bundle at block 20 being executed in block 30,
  the block of the next proposal; the second step back judges that bundle as of block 29,
  misses its leaf and returns the bundle at block 10. The forward walk, which judges every
  bundle as of the latest block, returns the bundle at block 20 as the second earliest.
\<close>

theorem nth_latest_skips_bundle:
  "getNthFullyExecutedRootBundle three_bundles (- 1) None = Inr (Some (proposal 30 1 [])) \<and>
   getNthFullyExecutedRootBundle three_bundles (- 2) None = Inr (Some (proposal 20 1 [])) \<and>
   getValidatedRootBundles leaf_in_next_proposal_block 40
     = [proposal 10 1 [], proposal 20 1 [], proposal 30 1 []] \<and>
   getNthFullyExecutedRootBundle leaf_in_next_proposal_block (- 1) None
     = Inr (Some (proposal 30 1 [])) \<and>
   getNthFullyExecutedRootBundle leaf_in_next_proposal_block (- 2) None
     = Inr (Some (proposal 10 1 [])) \<and>
   getNthFullyExecutedRootBundle leaf_in_next_proposal_block 2 None
     = Inr (Some (proposal 20 1 [])) \<and>
   proposal 10 1 [] \<noteq> proposal 20 1 []"
proof -
  have "getNthFullyExecutedRootBundle three_bundles (- 1) None
          = Inr (Some (proposal 30 1 [])) \<and>
        getNthFullyExecutedRootBundle three_bundles (- 2) None
          = Inr (Some (proposal 20 1 []))"
    by code_simp
  moreover have "getValidatedRootBundles leaf_in_next_proposal_block 40
          = [proposal 10 1 [], proposal 20 1 [], proposal 30 1 []] \<and>
        getNthFullyExecutedRootBundle leaf_in_next_proposal_block (- 1) None
          = Inr (Some (proposal 30 1 [])) \<and>
        getNthFullyExecutedRootBundle leaf_in_next_proposal_block (- 2) None
          = Inr (Some (proposal 10 1 [])) \<and>
        getNthFullyExecutedRootBundle leaf_in_next_proposal_block 2 None
          = Inr (Some (proposal 20 1 []))"
    by code_simp
  moreover have "proposal 10 1 [] \<noteq> proposal 20 1 []"
    by (simp add: proposal_def)
  ultimately show ?thesis by simp
qed

text \<open>Facts about the descending sort and the first match in its result.\<close>

lemma find_sorted_first:
  "sorted (map f xs) \<Longrightarrow> find P xs = Some e \<Longrightarrow> \<forall>e' \<in> set xs. P e' \<longrightarrow> f e \<le> f e'"
proof (induction xs)
  case Nil
  then show ?case by simp
next
  case (Cons x xs)
  show ?case
  proof (cases "P x")
    case True
    then have "e = x" using Cons.prems(2) by simp
    then show ?thesis using Cons.prems(1) by auto
  next
    case False
    then show ?thesis using Cons by auto
  qed
qed

lemma descending_key_le:
  "(- blockNumber x, - transactionIndex x, - logIndex x)
     \<le> (- blockNumber y, - transactionIndex y, - logIndex y) \<longleftrightarrow> \<not> eventLaterThan y x"
  by (auto simp: eventLaterThan_def less_eq_prod_def)

lemma sortEventsDescending_set: "set (sortEventsDescending es) = set es"
  by (simp add: sortEventsDescending_def)

lemma find_sortEventsDescending:
  assumes "find P (sortEventsDescending es) = Some e"
  shows "e \<in> set es \<and> P e \<and> (\<forall>e' \<in> set es. P e' \<longrightarrow> \<not> eventLaterThan e' e)"
proof -
  have srt: "sorted (map (\<lambda>e. (- blockNumber e, - transactionIndex e, - logIndex e))
                 (sortEventsDescending es))"
    by (simp add: sortEventsDescending_def)
  have "\<forall>e' \<in> set (sortEventsDescending es). P e' \<longrightarrow>
          (- blockNumber e, - transactionIndex e, - logIndex e)
            \<le> (- blockNumber e', - transactionIndex e', - logIndex e')"
    using find_sorted_first [OF srt assms] by simp
  then have "\<forall>e' \<in> set es. P e' \<longrightarrow> \<not> eventLaterThan e' e"
    unfolding descending_key_le sortEventsDescending_set by simp
  moreover have "e \<in> set es" "P e"
    using assms sortEventsDescending_set [of es] by (auto simp: find_Some_iff)
  ultimately show ?thesis by simp
qed

text \<open>
  Claim C6. The ledgers are those of the data model, in which the \<open>runningBalances\<close> of an
  executed leaf run parallel to its \<open>l1Tokens\<close>. Call an executed leaf matching when its
  block is at most \<open>block\<close>, its chain is \<open>chain\<close> and its \<open>l1Tokens\<close> hold the token (token
  addresses are compared without regard to letter case). Without a matching leaf the running
  balance is 0. Otherwise the result is the entry of \<open>runningBalances\<close> at the token's first
  position in \<open>l1Tokens\<close>, taken from a matching leaf after which no matching leaf comes in
  the order by block, transaction index and log index: the most recent one.
\<close>

theorem running_balance_before_block:
  assumes "matching = (\<lambda>e. blockNumber e \<le> block \<and> chainId e = chain \<and>
                           toLowerCase l1Token \<in> set (map toLowerCase (l1Tokens e)))"
    and parallel: "\<forall>e \<in> set (executedRootBundles c).
                     length (runningBalances e) = length (l1Tokens e)"
  shows "((\<forall>e \<in> set (executedRootBundles c). \<not> matching e) \<longrightarrow>
            getRunningBalanceBeforeBlockForChain c block chain l1Token = Inr 0) \<and>
         ((\<exists>e \<in> set (executedRootBundles c). matching e) \<longrightarrow>
            (\<exists>e \<in> set (executedRootBundles c).
               matching e \<and>
               (\<forall>e' \<in> set (executedRootBundles c). matching e' \<longrightarrow> \<not> eventLaterThan e' e) \<and>
               (\<exists>i < length (l1Tokens e).
                   toLowerCase (l1Tokens e ! i) = toLowerCase l1Token \<and>
                   (\<forall>j < i. toLowerCase (l1Tokens e ! j) \<noteq> toLowerCase l1Token) \<and>
                   getRunningBalanceBeforeBlockForChain c block chain l1Token
                     = Inr (runningBalances e ! i))))"
proof (intro conjI impI)
  assume "\<forall>e \<in> set (executedRootBundles c). \<not> matching e"
  then have "find matching (sortEventsDescending (executedRootBundles c)) = None"
    by (simp add: find_None_iff sortEventsDescending_set)
  then show "getRunningBalanceBeforeBlockForChain c block chain l1Token = Inr 0"
    unfolding getRunningBalanceBeforeBlockForChain_def assms(1) by simp
next
  assume "\<exists>e \<in> set (executedRootBundles c). matching e"
  then have "find matching (sortEventsDescending (executedRootBundles c)) \<noteq> None"
    by (auto simp: find_None_iff sortEventsDescending_set)
  then obtain e where fnd: "find matching (sortEventsDescending (executedRootBundles c)) = Some e"
    by blast
  have props: "e \<in> set (executedRootBundles c)" "matching e"
    "\<forall>e' \<in> set (executedRootBundles c). matching e' \<longrightarrow> \<not> eventLaterThan e' e"
    using find_sortEventsDescending [OF fnd] by auto
  have len: "length (l1Tokens e) = length (runningBalances e)"
    using parallel props(1) by simp
  have mem: "toLowerCase l1Token \<in> set (map toLowerCase (l1Tokens e))"
    using props(2) by (simp add: assms(1))
  define i where "i = nat (indexOf (map toLowerCase (l1Tokens e)) (toLowerCase l1Token))"
  have idx: "i < length (l1Tokens e)" "toLowerCase (l1Tokens e ! i) = toLowerCase l1Token"
    "\<forall>j < i. toLowerCase (l1Tokens e ! j) \<noteq> toLowerCase l1Token"
    using indexOf_present [OF mem] by (auto simp: i_def)
  have res: "getRunningBalanceBeforeBlockForChain c block chain l1Token
      = Inr (runningBalances e ! i)"
    using fnd len unfolding getRunningBalanceBeforeBlockForChain_def assms(1) i_def
    by (simp add: Let_def)
  show "\<exists>e \<in> set (executedRootBundles c).
               matching e \<and>
               (\<forall>e' \<in> set (executedRootBundles c). matching e' \<longrightarrow> \<not> eventLaterThan e' e) \<and>
               (\<exists>i < length (l1Tokens e).
                   toLowerCase (l1Tokens e ! i) = toLowerCase l1Token \<and>
                   (\<forall>j < i. toLowerCase (l1Tokens e ! j) \<noteq> toLowerCase l1Token) \<and>
                   getRunningBalanceBeforeBlockForChain c block chain l1Token
                     = Inr (runningBalances e ! i))"
    using props idx res by (intro bexI [of _ e]) auto
qed

theorem running_balance_before_block_witness:
  "getRunningBalanceBeforeBlockForChain balances_ledger 40 1 ''0xaA'' = Inr 11 \<and>
   getRunningBalanceBeforeBlockForChain balances_ledger 11 1 ''0xaA'' = Inr 0"
proof -
  have parallel: "\<forall>e \<in> set (executedRootBundles balances_ledger).
      length (runningBalances e) = length (l1Tokens e)"
    by (simp add: balances_ledger_def ledger_def leaf_def)
  have a: "getRunningBalanceBeforeBlockForChain balances_ledger 40 1 ''0xaA'' = Inr 11"
    by code_simp
  have b: "getRunningBalanceBeforeBlockForChain balances_ledger 11 1 ''0xaA'' = Inr 0"
    using running_balance_before_block [OF refl parallel, of 11 1 "''0xaA''"]
    by (simp add: balances_ledger_def ledger_def leaf_def)
  show ?thesis
    using a b by simp
qed

section \<open>Properties of the fee calculator\<close>

lemma foldl_flow_sum:
  "foldl (\<lambda>acc flow. if isUbaInflow flow then acc + amount flow
                       else if isUbaOutflow flow then acc - amount flow else acc) init fs
     = init + sum_list (map amount (filter isUbaInflow fs))
            - sum_list (map amount (filter isUbaOutflow fs))"
  by (induction fs arbitrary: init) (auto simp: isUbaOutflow_def)

lemma slice_nonneg:
  "0 \<le> s \<Longrightarrow> 0 \<le> e \<Longrightarrow> slice xs s e = drop (nat s) (take (nat e) xs)"
  by (cases "e \<le> int (length xs)"; cases "s \<le> int (length xs)")
     (auto simp: slice_def Let_def drop_take min_def nat_diff_distrib')

text \<open>
  Claim C7. The running balance of a side is the last validated running balance of that
  side's spoke (0 when absent), plus the amounts of the inflows, minus the amounts of the
  outflows among the flows considered: all of \<open>recentRequestFlow\<close>, or its slice when a flow
  range is given, which for non-negative indices holds the flows at the positions from
  \<open>startIndex\<close> up to but not including \<open>endIndex\<close>. Flows that are neither add nothing. An
  inflow is a flow with a quote timestamp; an outflow is a flow without one that has a
  slow-relay marker or a fill block; no flow is both.
\<close>

theorem running_balance_fold:
  assumes "spoke = (if side = Origin then originSpoke calc else refundSpoke calc)"
    and "flows = (case flowRange of
                    Some r \<Rightarrow> slice (recentRequestFlow spoke) (startIndex r) (endIndex r)
                  | None \<Rightarrow> recentRequestFlow spoke)"
  shows "calculateRecentRunningBalance calc side flowRange =
           (case lastValidatedRunningBalance spoke of Some v \<Rightarrow> v | None \<Rightarrow> 0)
           + sum_list (map amount (filter isUbaInflow flows))
           - sum_list (map amount (filter isUbaOutflow flows)) \<and>
         (0 \<le> s \<and> 0 \<le> e \<longrightarrow> slice (fs :: UbaFlow list) s e = drop (nat s) (take (nat e) fs)) \<and>
         (isUbaInflow f \<longleftrightarrow> quoteTimestamp f \<noteq> None) \<and>
         (isUbaOutflow f \<longleftrightarrow>
            quoteTimestamp f = None \<and> (isSlowRelay f \<noteq> None \<or> fillBlock f \<noteq> None)) \<and>
         \<not> (isUbaInflow f \<and> isUbaOutflow f)"
proof -
  have tags: "(isUbaInflow f \<longleftrightarrow> quoteTimestamp f \<noteq> None) \<and>
     (isUbaOutflow f \<longleftrightarrow>
        quoteTimestamp f = None \<and> (isSlowRelay f \<noteq> None \<or> fillBlock f \<noteq> None)) \<and>
     \<not> (isUbaInflow f \<and> isUbaOutflow f)"
    by (auto simp: isUbaOutflow_def isUbaInflow_def outflowIsFill_def outflowIsRefund_def)
  have fold: "calculateRecentRunningBalance calc side flowRange =
           (case lastValidatedRunningBalance spoke of Some v \<Rightarrow> v | None \<Rightarrow> 0)
           + sum_list (map amount (filter isUbaInflow flows))
           - sum_list (map amount (filter isUbaOutflow flows))"
    unfolding calculateRecentRunningBalance_def Let_def foldl_flow_sum assms by (rule refl)
  have sl: "0 \<le> s \<and> 0 \<le> e \<longrightarrow> slice fs s e = drop (nat s) (take (nat e) fs)"
    using slice_nonneg [of s e fs] by blast
  show ?thesis
    using fold sl tags by blast
qed

theorem running_balance_fold_witness:
  "calculateRecentRunningBalance
     \<lparr>originSpoke = spoke_with 1 [inflow 100, outflow 30, inflow 5] (Some 0),
      refundSpoke = spoke_with 10 [] None\<rparr> Origin None = 75 \<and>
   calculateRecentRunningBalance
     \<lparr>originSpoke = spoke_with 1 [inflow 100, outflow 30, inflow 5] (Some 0),
      refundSpoke = spoke_with 10 [] None\<rparr> Origin (Some \<lparr>startIndex = 0, endIndex = 2\<rparr>) = 70 \<and>
   calculateRecentRunningBalance
     \<lparr>originSpoke = spoke_with 1 [inflow 100, outflow 30, inflow 5] (Some 0),
      refundSpoke = spoke_with 10 [] None\<rparr> Refund None = 0"
  using running_balance_fold [OF refl refl,
      of "\<lparr>originSpoke = spoke_with 1 [inflow 100, outflow 30, inflow 5] (Some 0),
           refundSpoke = spoke_with 10 [] None\<rparr>" Origin None 0 0 "[]" "inflow 100"]
    running_balance_fold [OF refl refl,
      of "\<lparr>originSpoke = spoke_with 1 [inflow 100, outflow 30, inflow 5] (Some 0),
           refundSpoke = spoke_with 10 [] None\<rparr>" Origin "Some \<lparr>startIndex = 0, endIndex = 2\<rparr>"
         0 2 "[inflow 100, outflow 30, inflow 5]" "outflow 30"]
    running_balance_fold [OF refl refl,
      of "\<lparr>originSpoke = spoke_with 1 [inflow 100, outflow 30, inflow 5] (Some 0),
           refundSpoke = spoke_with 10 [] None\<rparr>" Refund None 0 0 "[]" "inflow 5"]
  by (simp add: spoke_with_def inflow_def outflow_def isUbaInflow_def isUbaOutflow_def
      outflowIsFill_def outflowIsRefund_def)

end
